theory Spec2Isabelle
  imports Main "HOL-Library.Sublist" "HOL-Library.Word"
begin

section \<open>Common models\<close>

text \<open>
  Errors thrown by the code are JavaScript \<open>Error\<close> objects carrying a message. The
  time-out failure of the deadline guard is a separate constructor.
\<close>

datatype error = Error string | Timeout

text \<open>A \<open>Buffer\<close> is a sequence of bytes; \<open>byteLength\<close> counts them.\<close>

type_synonym Buffer = "8 word list"

definition byteLength :: "Buffer \<Rightarrow> int" where
  "byteLength b = int (length b)"

text \<open>\<open>FetchResultCode\<close>: the four codes that \<open>IpfsStorage\<close> produces.\<close>

datatype FetchResultCode = Success | NotFound | MaxSizeExceeded | NotAFile

text \<open>\<open>FetchResult\<close>: a code and an optional content buffer.\<close>

record FetchResult =
  code :: FetchResultCode
  content :: "Buffer option"

section \<open>DidDocument.getPublicKey\<close>

text \<open>
  A public-key entry carries an \<open>id\<close> string; a document carries the ordered list
  \<open>publicKey\<close> of its entries. The other fields of an entry play no part in the
  look-up and are kept as one opaque component.
\<close>

record 'a DidPublicKeyModel =
  key_id :: string
  key_rest :: 'a

record 'a DidDocumentModel =
  publicKey :: "'a DidPublicKeyModel list"

text \<open>
  JavaScript's \<open>s.endsWith(t)\<close>: the last \<open>length t\<close> code units of \<open>s\<close> are \<open>t\<close>.
\<close>

definition endsWith :: "string \<Rightarrow> string \<Rightarrow> bool" where
  "endsWith s t = (length t \<le> length s \<and> drop (length s - length t) s = t)"

text \<open>
  The loop of \<open>getPublicKey\<close> over \<open>didDocument.publicKey\<close>. The test
  \<open>publicKey.id && publicKey.id.endsWith(keyId)\<close> first asks that the id is truthy: an
  empty string is falsy in JavaScript.
\<close>

fun getPublicKeyLoop :: "'a DidPublicKeyModel list \<Rightarrow> string \<Rightarrow> 'a DidPublicKeyModel option" where
  "getPublicKeyLoop [] keyId = None"
| "getPublicKeyLoop (k # rest) keyId =
     (if key_id k \<noteq> [] \<and> endsWith (key_id k) keyId then Some k
      else getPublicKeyLoop rest keyId)"

definition getPublicKey :: "'a DidDocumentModel \<Rightarrow> string \<Rightarrow> 'a DidPublicKeyModel option" where
  "getPublicKey didDocument keyId = getPublicKeyLoop (publicKey didDocument) keyId"

section \<open>Promises and the deadline guard\<close>

text \<open>
  A pending remote operation either resolves with a value or rejects with an error, some
  number of milliseconds after it was started, or never settles.
\<close>

datatype 'a promise = Resolves nat 'a | Rejects nat error | NeverSettles

text \<open>The guard wraps a value as \<open>{ result: value }\<close>.\<close>

record 'a response =
  result :: 'a

text \<open>
  Modelled from the spec: \<open>AsyncTimeout.timeoutAsyncCall\<close> (the spec's
  \<open>withDeadline(operation, durationMs)\<close>), imported by \<open>IpfsStorage.ts\<close> from
  \<open>../common/AsyncTimeout\<close>, which is not among the sources. The operation is raced
  against a timer of the given duration: an operation that completes first gives its
  result, wrapped; a timer that fires first gives \<open>Timeout\<close>; a duration of zero or less
  is an immediate time-out. An operation that fails before the timer fires passes its
  own error on. The spec is silent on an operation that settles at the very instant the
  timer fires; here the timer wins.
\<close>

definition timeoutAsyncCall :: "'a promise \<Rightarrow> int \<Rightarrow> error + 'a response" where
  "timeoutAsyncCall task timeoutInMilliseconds =
     (if timeoutInMilliseconds \<le> 0 then Inl Timeout
      else case task of
        Resolves t v \<Rightarrow> if int t < timeoutInMilliseconds then Inr \<lparr>result = v\<rparr> else Inl Timeout
      | Rejects t e \<Rightarrow> if int t < timeoutInMilliseconds then Inl e else Inl Timeout
      | NeverSettles \<Rightarrow> Inl Timeout)"

text \<open>
  What an \<open>async\<close> method does for its caller: it returns a value, raises an error, or
  never returns. A plain \<open>await\<close> of a promise, with no guard around it, gives each of
  them.
\<close>

datatype 'a outcome = Returned 'a | Raised error | NeverReturns

fun await :: "'a promise \<Rightarrow> 'a outcome" where
  "await (Resolves t v) = Returned v"
| "await (Rejects t e) = Raised e"
| "await NeverSettles = NeverReturns"

section \<open>The IPFS node\<close>

text \<open>
  The node is an external service. It is modelled by what each of its calls answers:
  \<^item> \<open>object.stat(hash)\<close> is a promise of the metadata, which may be \<open>undefined\<close> and
    may lack \<open>DataSize\<close>;
  \<^item> \<open>cat(hash)\<close> throws, or returns an iterator: the finite list of the promises its
    successive \<open>next()\<close> calls return, each of an iterator result
    \<open>{ value, done }\<close> or of \<open>undefined\<close>. Once the list is used up the iterator is
    exhausted, and \<open>next()\<close> resolves at once with \<open>{ value: undefined, done: true }\<close>;
  \<^item> \<open>pin.add(hash)\<close> and \<open>stop()\<close> are promises of nothing.
  Sizes are whole numbers of bytes.
\<close>

record ContentMetadata =
  DataSize :: "int option"

record IteratorResult =
  r_value :: "Buffer option"
  r_done :: bool

type_synonym iterator = "IteratorResult option promise list"

record IPFS =
  object_stat :: "string \<Rightarrow> ContentMetadata option promise"
  cat :: "string \<Rightarrow> error + iterator"
  pin_add :: "string \<Rightarrow> unit promise"
  node_stop :: "unit promise"

text \<open>The calls issued to the IPFS library and to the node, in the order of issue.\<close>

datatype call = Create string | ObjectStat string | Cat string | Next string | PinAdd string | Stop

section \<open>IpfsStorage\<close>

record IpfsStorage =
  node :: IPFS

text \<open>
  The state of the process: the static slot \<open>ipfsStorageSingleton\<close>, and the calls
  issued so far.
\<close>

record world =
  ipfsStorageSingleton :: "IpfsStorage option"
  calls :: "call list"

definition issue :: "call \<Rightarrow> world \<Rightarrow> world" where
  "issue c w = w\<lparr>calls := calls w @ [c]\<rparr>"

definition timeoutDuration :: int where
  "timeoutDuration = 10000"

definition AlreadyExists :: error where
  "AlreadyExists = Error ''IpfsStorage is a singleton thus cannot be created twice. Please use the getSingleton method to get the instance''"

definition NotInitialized :: error where
  "NotInitialized = Error ''IpfsStorage is a singleton, Please use the createSingleton method before get''"

subsection \<open>Singleton lifecycle\<close>

text \<open>
  \<open>createSingleton(repo?)\<close>. \<open>IPFS.create\<close> is the library's constructor of a node: a
  promise of the node, for the options given.
\<close>

record options =
  repo :: string

definition createSingleton ::
  "(options \<Rightarrow> IPFS promise) \<Rightarrow> string option \<Rightarrow> world \<Rightarrow> IpfsStorage outcome \<times> world" where
  "createSingleton IPFS_create repo_arg w =
     (if ipfsStorageSingleton w = None then
        let localRepoName = ''sidetree-ipfs'';
            opts = \<lparr>repo = (case repo_arg of Some r \<Rightarrow> r | None \<Rightarrow> localRepoName)\<rparr>;
            w1 = issue (Create (repo opts)) w
        in case await (IPFS_create opts) of
             Returned n \<Rightarrow>
               (Returned \<lparr>node = n\<rparr>, w1\<lparr>ipfsStorageSingleton := Some \<lparr>node = n\<rparr>\<rparr>)
           | Raised e \<Rightarrow> (Raised e, w1)
           | NeverReturns \<Rightarrow> (NeverReturns, w1)
      else (Raised AlreadyExists, w))"

definition getSingleton :: "world \<Rightarrow> IpfsStorage outcome \<times> world" where
  "getSingleton w =
     (case ipfsStorageSingleton w of
        None \<Rightarrow> (Raised NotInitialized, w)
      | Some s \<Rightarrow> (Returned s, w))"

definition stop :: "IpfsStorage \<Rightarrow> world \<Rightarrow> unit outcome \<times> world" where
  "stop this w = (await (node_stop (node this)), issue Stop w)"

subsection \<open>read and fetchContent\<close>

text \<open>
  The \<open>do ... while (!result.done)\<close> loop of \<open>fetchContent\<close>, with the \<open>catch\<close> around
  it (any error: \<open>NotAFile\<close>) and the assembly of the content after it. Its locals are
  \<open>bufferChunks\<close> and \<open>currentContentSize\<close>; it also returns \<open>bufferChunks\<close> as it is
  when the method returns. On an exhausted iterator \<open>next()\<close> gives
  \<open>{ value: undefined, done: true }\<close>: no chunk is added and the loop ends.
\<close>

fun fetchContentLoop ::
  "string \<Rightarrow> int \<Rightarrow> iterator \<Rightarrow> Buffer list \<Rightarrow> int \<Rightarrow> world \<Rightarrow> FetchResult \<times> Buffer list \<times> world" where
  "fetchContentLoop hash maxSizeInBytes [] bufferChunks currentContentSize w =
     (\<lparr>code = Success, content = Some (concat bufferChunks)\<rparr>, bufferChunks, issue (Next hash) w)"
| "fetchContentLoop hash maxSizeInBytes (p # it) bufferChunks currentContentSize w =
     (let w1 = issue (Next hash) w in
      case timeoutAsyncCall p timeoutDuration of
        Inl e \<Rightarrow> (\<lparr>code = NotAFile, content = None\<rparr>, bufferChunks, w1)
      | Inr rsp \<Rightarrow>
         (case result rsp of
            None \<Rightarrow> (\<lparr>code = NotFound, content = None\<rparr>, bufferChunks, w1)
          | Some r \<Rightarrow>
             (case r_value r of
                Some chunk \<Rightarrow>
                  if maxSizeInBytes < currentContentSize + byteLength chunk
                  then (\<lparr>code = MaxSizeExceeded, content = None\<rparr>, bufferChunks, w1)
                  else if r_done r
                  then (\<lparr>code = Success, content = Some (concat (bufferChunks @ [chunk]))\<rparr>,
                        bufferChunks @ [chunk], w1)
                  else fetchContentLoop hash maxSizeInBytes it (bufferChunks @ [chunk])
                         (currentContentSize + byteLength chunk) w1
              | None \<Rightarrow>
                  if r_done r
                  then (\<lparr>code = Success, content = Some (concat bufferChunks)\<rparr>, bufferChunks, w1)
                  else fetchContentLoop hash maxSizeInBytes it bufferChunks currentContentSize w1)))"

definition fetchContent :: "IpfsStorage \<Rightarrow> string \<Rightarrow> int \<Rightarrow> world \<Rightarrow> FetchResult \<times> world" where
  "fetchContent this hash maxSizeInBytes w =
     (let w1 = issue (Cat hash) w in
      case cat (node this) hash of
        Inl e \<Rightarrow> (\<lparr>code = NotAFile, content = None\<rparr>, w1)
      | Inr it \<Rightarrow>
          (case fetchContentLoop hash maxSizeInBytes it [] 0 w1 of
             (fetchResult, bufferChunks, w2) \<Rightarrow> (fetchResult, w2)))"

definition read :: "IpfsStorage \<Rightarrow> string \<Rightarrow> int \<Rightarrow> world \<Rightarrow> FetchResult outcome \<times> world" where
  "read this hash maxSizeInBytes w =
     (let w1 = issue (ObjectStat hash) w in
      case timeoutAsyncCall (object_stat (node this) hash) timeoutDuration of
        Inl e \<Rightarrow> (Returned \<lparr>code = NotFound, content = None\<rparr>, w1)
      | Inr rsp \<Rightarrow>
         (case result rsp of
            None \<Rightarrow> (Returned \<lparr>code = NotFound, content = None\<rparr>, w1)
          | Some contentMetadata \<Rightarrow>
             (case DataSize contentMetadata of
                None \<Rightarrow> (Returned \<lparr>code = NotFound, content = None\<rparr>, w1)
              | Some dataSize \<Rightarrow>
                  if dataSize > maxSizeInBytes
                  then (Returned \<lparr>code = MaxSizeExceeded, content = None\<rparr>, w1)
                  else
                    (case fetchContent this hash maxSizeInBytes w1 of
                       (fetchResult, w2) \<Rightarrow>
                         if code fetchResult = Success
                         then
                           (case await (pin_add (node this) hash) of
                              Returned u \<Rightarrow> (Returned fetchResult, issue (PinAdd hash) w2)
                            | Raised e \<Rightarrow> (Raised e, issue (PinAdd hash) w2)
                            | NeverReturns \<Rightarrow> (NeverReturns, issue (PinAdd hash) w2))
                         else (Returned fetchResult, w2)))))"

section \<open>Vocabulary for stating the properties\<close>

text \<open>
  The definitions of this section are not part of the program: they name what the
  properties below talk about.

  \<open>delivered p\<close> is what a guarded \<open>next()\<close> hands to the loop when the promise \<open>p\<close>
  settles in time with an iterator result. A step \<open>continues\<close> when that result is not
  \<open>done\<close>; \<open>chunkOf\<close> is the chunk it carries, if any.
\<close>

definition delivered :: "IteratorResult option promise \<Rightarrow> IteratorResult option" where
  "delivered p = (case timeoutAsyncCall p timeoutDuration of Inl e \<Rightarrow> None | Inr rsp \<Rightarrow> result rsp)"

definition continues :: "IteratorResult option promise \<Rightarrow> bool" where
  "continues p = (case delivered p of None \<Rightarrow> False | Some r \<Rightarrow> \<not> r_done r)"

definition chunkOf :: "IteratorResult option promise \<Rightarrow> Buffer list" where
  "chunkOf p =
     (case delivered p of None \<Rightarrow> [] | Some r \<Rightarrow> (case r_value r of None \<Rightarrow> [] | Some c \<Rightarrow> [c]))"

definition chunksOf :: "iterator \<Rightarrow> Buffer list" where
  "chunksOf it = concat (map chunkOf it)"

definition totalSize :: "Buffer list \<Rightarrow> int" where
  "totalSize cs = sum_list (map byteLength cs)"

text \<open>
  The chunks that a stream delivers, in the order of receipt: those of its steps up to
  and including the first step that does not continue.
\<close>

fun receivedChunks :: "iterator \<Rightarrow> Buffer list" where
  "receivedChunks [] = []"
| "receivedChunks (p # it) = chunkOf p @ (if continues p then receivedChunks it else [])"

text \<open>
  A stream completes when each of its steps is delivered, in time and with an iterator
  result, until one of them is \<open>done\<close> or the iterator is exhausted. A step that
  rejects, times out or gives \<open>undefined\<close> before that breaks the stream. For a stream
  that completes, \<open>receivedChunks\<close> are all its chunks up to the completion.
\<close>

fun completes :: "iterator \<Rightarrow> bool" where
  "completes [] = True"
| "completes (p # it) = (case delivered p of None \<Rightarrow> False | Some r \<Rightarrow> r_done r \<or> completes it)"

text \<open>
  Stage 1 of \<open>read\<close> passes: the guarded \<open>stat\<close> gives metadata with a declared size that
  is not greater than the limit.
\<close>

definition metadataProbePasses :: "IpfsStorage \<Rightarrow> string \<Rightarrow> int \<Rightarrow> bool" where
  "metadataProbePasses this hash maxSizeInBytes =
     (case timeoutAsyncCall (object_stat (node this) hash) timeoutDuration of
        Inl e \<Rightarrow> False
      | Inr rsp \<Rightarrow>
         (case result rsp of
            None \<Rightarrow> False
          | Some md \<Rightarrow> (case DataSize md of None \<Rightarrow> False | Some ds \<Rightarrow> ds \<le> maxSizeInBytes)))"

text \<open>
  Store doubles for concrete runs: a node that answers every \<open>stat\<close>, \<open>cat\<close> and
  \<open>pin.add\<close> with the given promises; an iterator step that resolves after \<open>t\<close>
  milliseconds with a chunk; the state of a fresh process.
\<close>

definition storeDouble ::
  "ContentMetadata option promise \<Rightarrow> error + iterator \<Rightarrow> unit promise \<Rightarrow> IPFS" where
  "storeDouble st it pn =
     \<lparr>object_stat = (\<lambda>h. st), cat = (\<lambda>h. it), pin_add = (\<lambda>h. pn), node_stop = Resolves 0 ()\<rparr>"

definition chunkStep :: "nat \<Rightarrow> Buffer \<Rightarrow> bool \<Rightarrow> IteratorResult option promise" where
  "chunkStep t c d = Resolves t (Some \<lparr>r_value = Some c, r_done = d\<rparr>)"

definition initial :: world where
  "initial = \<lparr>ipfsStorageSingleton = None, calls = []\<rparr>"

section \<open>Auxiliary facts\<close>

lemma endsWith_suffix: "endsWith s t \<longleftrightarrow> suffix t s"
proof
  assume "endsWith s t"
  then have "s = take (length s - length t) s @ t"
    by (metis append_take_drop_id endsWith_def)
  then show "suffix t s"
    by (metis suffixI)
next
  assume "suffix t s"
  then obtain u where "s = u @ t"
    by (auto simp: suffix_def)
  then show "endsWith s t"
    by (simp add: endsWith_def)
qed

lemma getPublicKeyLoop_find:
  "getPublicKeyLoop ks keyId = find (\<lambda>k. key_id k \<noteq> [] \<and> suffix keyId (key_id k)) ks"
  by (induction ks) (simp_all add: endsWith_suffix)

lemma totalSize_nonneg: "0 \<le> totalSize cs"
  by (induction cs) (simp_all add: totalSize_def byteLength_def)

lemma totalSize_append: "totalSize (xs @ ys) = totalSize xs + totalSize ys"
  by (simp add: totalSize_def)

lemma chunksOf_Cons: "chunksOf (p # it) = chunkOf p @ chunksOf it"
  by (simp add: chunksOf_def)

lemma fetchContentLoop_prefix:
  "list_all continues pre \<Longrightarrow> sz + totalSize (chunksOf pre) \<le> m \<Longrightarrow>
   fetchContentLoop h m (pre @ rest) cs sz w =
   fetchContentLoop h m rest (cs @ chunksOf pre) (sz + totalSize (chunksOf pre))
     (w\<lparr>calls := calls w @ replicate (length pre) (Next h)\<rparr>)"
proof (induction pre arbitrary: cs sz w)
  case Nil
  then show ?case by (simp add: chunksOf_def totalSize_def)
next
  case (Cons p pre)
  from Cons.prems(1) have c: "continues p" and rest: "list_all continues pre" by simp_all
  from c obtain r where d: "delivered p = Some r" and nd: "\<not> r_done r"
    by (auto simp: continues_def split: option.splits)
  from d obtain rsp where g: "timeoutAsyncCall p timeoutDuration = Inr rsp" and rr: "result rsp = Some r"
    by (auto simp: delivered_def split: sum.splits)
  have nn: "0 \<le> totalSize (chunksOf pre)" by (rule totalSize_nonneg)
  show ?case
  proof (cases "r_value r")
    case None
    then have ch: "chunkOf p = []" by (simp add: chunkOf_def d)
    with Cons.prems(2) have b: "sz + totalSize (chunksOf pre) \<le> m"
      by (simp add: chunksOf_Cons)
    show ?thesis
      using Cons.IH[OF rest b, of cs "issue (Next h) w"] None g rr nd ch
      by (simp add: chunksOf_Cons issue_def replicate_append_same)
  next
    case (Some c)
    then have ch: "chunkOf p = [c]" by (simp add: chunkOf_def d)
    with Cons.prems(2) have b: "(sz + byteLength c) + totalSize (chunksOf pre) \<le> m"
      by (simp add: chunksOf_Cons totalSize_append totalSize_def)
    with nn have le: "\<not> m < sz + byteLength c" by simp
    show ?thesis
      using Cons.IH[OF rest b, of "cs @ [c]" "issue (Next h) w"] Some g rr nd ch le
      by (simp add: chunksOf_Cons totalSize_append issue_def replicate_append_same totalSize_def add.assoc)
  qed
qed


lemma fetchContentLoop_content:
  "fetchContentLoop h m it cs sz w = (r, b, w') \<Longrightarrow>
   (code r = Success \<longrightarrow> content r = Some (concat (cs @ receivedChunks it))) \<and>
   (code r \<noteq> Success \<longrightarrow> content r = None)"
proof (induction it arbitrary: cs sz w)
  case Nil
  then show ?case by auto
next
  case (Cons p it)
  show ?case
  proof (cases "timeoutAsyncCall p timeoutDuration")
    case (Inl e)
    with Cons.prems show ?thesis by auto
  next
    case (Inr rsp)
    show ?thesis
    proof (cases "result rsp")
      case None
      with Inr Cons.prems show ?thesis by auto
    next
      case (Some res)
      have d: "delivered p = Some res" by (simp add: delivered_def Inr Some)
      show ?thesis
      proof (cases "r_value res")
        case None
        then have ch: "chunkOf p = []" by (simp add: chunkOf_def d)
        show ?thesis
        proof (cases "r_done res")
          case True
          with Cons.prems Inr Some None ch d show ?thesis
            by (auto simp: continues_def)
        next
          case False
          with Cons.prems Inr Some None
          have "fetchContentLoop h m it cs sz (issue (Next h) w) = (r, b, w')" by simp
          from Cons.IH[OF this] ch d False show ?thesis
            by (simp add: continues_def)
        qed
      next
        case (Some c)
        then have ch: "chunkOf p = [c]" by (simp add: chunkOf_def d)
        show ?thesis
        proof (cases "m < sz + byteLength c")
          case True
          with Cons.prems Inr \<open>result rsp = Some res\<close> Some show ?thesis by auto
        next
          case over: False
          show ?thesis
          proof (cases "r_done res")
            case True
            with Cons.prems Inr \<open>result rsp = Some res\<close> Some over ch d show ?thesis
              by (auto simp: continues_def)
          next
            case False
            with Cons.prems Inr \<open>result rsp = Some res\<close> Some over
            have "fetchContentLoop h m it (cs @ [c]) (sz + byteLength c) (issue (Next h) w) = (r, b, w')"
              by simp
            from Cons.IH[OF this] ch d False show ?thesis
              by (simp add: continues_def)
          qed
        qed
      qed
    qed
  qed
qed

lemma fetchContentLoop_Cons_cases:
  assumes "fetchContentLoop h m (p # it) cs sz w = (r, b, w')"
  shows "w' = issue (Next h) w \<or>
         (\<exists>cs' sz'. fetchContentLoop h m it cs' sz' (issue (Next h) w) = (r, b, w'))"
  using assms by (auto simp: Let_def split: sum.splits option.splits if_splits)

lemma fetchContentLoop_calls:
  "fetchContentLoop h m it cs sz w = (r, b, w') \<Longrightarrow>
   ipfsStorageSingleton w' = ipfsStorageSingleton w \<and>
   (\<exists>n. calls w' = calls w @ replicate n (Next h))"
proof (induction it arbitrary: cs sz w)
  case Nil
  then have "calls w' = calls w @ replicate 1 (Next h)" "ipfsStorageSingleton w' = ipfsStorageSingleton w"
    by (auto simp: issue_def)
  then show ?case by blast
next
  case (Cons p it)
  from fetchContentLoop_Cons_cases[OF Cons.prems] show ?case
  proof (elim disjE exE)
    assume "w' = issue (Next h) w"
    then have "calls w' = calls w @ replicate 1 (Next h)" "ipfsStorageSingleton w' = ipfsStorageSingleton w"
      by (auto simp: issue_def)
    then show ?case by blast
  next
    fix cs' sz'
    assume "fetchContentLoop h m it cs' sz' (issue (Next h) w) = (r, b, w')"
    from Cons.IH[OF this] obtain n where
      s: "ipfsStorageSingleton w' = ipfsStorageSingleton w" and
      n: "calls w' = calls w @ replicate (Suc n) (Next h)"
      by (auto simp: issue_def replicate_append_same)
    then show ?case by blast
  qed
qed


lemma fetchContent_content:
  assumes "fetchContent this hash m w = (r, w')"
  shows "(code r \<noteq> Success \<longrightarrow> content r = None) \<and>
         (code r = Success \<longrightarrow>
            (\<exists>it. cat (node this) hash = Inr it \<and> content r = Some (concat (receivedChunks it))))"
proof (cases "cat (node this) hash")
  case (Inl e)
  with assms show ?thesis by (auto simp: fetchContent_def)
next
  case (Inr it)
  obtain b where "fetchContentLoop hash m it [] 0 (issue (Cat hash) w) = (r, b, w')"
    using assms Inr by (auto simp: fetchContent_def split: prod.splits)
  from fetchContentLoop_content[OF this] Inr show ?thesis by simp
qed

lemma fetchContent_calls:
  assumes "fetchContent this hash m w = (r, w')"
  shows "ipfsStorageSingleton w' = ipfsStorageSingleton w \<and>
         (\<exists>n. calls w' = calls w @ Cat hash # replicate n (Next hash))"
proof (cases "cat (node this) hash")
  case (Inl e)
  with assms have "calls w' = calls w @ Cat hash # replicate 0 (Next hash)"
    "ipfsStorageSingleton w' = ipfsStorageSingleton w"
    by (auto simp: fetchContent_def issue_def)
  then show ?thesis by blast
next
  case (Inr it)
  obtain b where "fetchContentLoop hash m it [] 0 (issue (Cat hash) w) = (r, b, w')"
    using assms Inr by (auto simp: fetchContent_def split: prod.splits)
  from fetchContentLoop_calls[OF this] show ?thesis by (auto simp: issue_def)
qed

lemma fetchContentLoop_success_completes:
  "code (fst (fetchContentLoop h m it cs sz w)) = Success \<Longrightarrow> completes it"
proof (induction it arbitrary: cs sz w)
  case Nil
  show ?case by simp
next
  case (Cons p it)
  then show ?case
    by (auto simp: Let_def delivered_def split: sum.splits option.splits if_splits)
qed

lemma fetchContent_success_completes:
  assumes "code (fst (fetchContent this hash m w)) = Success"
  shows "\<exists>it. cat (node this) hash = Inr it \<and> completes it"
proof (cases "cat (node this) hash")
  case (Inl e)
  with assms show ?thesis by (simp add: fetchContent_def)
next
  case (Inr it)
  with assms have "code (fst (fetchContentLoop hash m it [] 0 (issue (Cat hash) w))) = Success"
    by (simp add: fetchContent_def split: prod.splits)
  from fetchContentLoop_success_completes[OF this] Inr show ?thesis by simp
qed

lemma fetchContentLoop_failed_next:
  assumes "list_all continues pre" and "totalSize (chunksOf pre) \<le> m"
    and "timeoutAsyncCall p timeoutDuration = Inl e"
  shows "fst (fetchContentLoop h m (pre @ p # rest) [] 0 w) = \<lparr>code = NotAFile, content = None\<rparr>"
  using fetchContentLoop_prefix[of pre 0 m h "p # rest" "[]" w] assms
  by simp

lemma fetchContent_complete:
  assumes "fetchContent this hash m w = (r, w')" and "code r = Success"
  shows "\<exists>it. cat (node this) hash = Inr it \<and> completes it \<and>
              content r = Some (concat (receivedChunks it))"
  using fetchContent_content[OF assms(1)] fetchContent_success_completes[of this hash m w] assms
  by auto

lemma read_unfold:
  "read this hash m w =
     (if metadataProbePasses this hash m then
        (case fetchContent this hash m (issue (ObjectStat hash) w) of
           (fetchResult, w2) \<Rightarrow>
             if code fetchResult = Success
             then (case await (pin_add (node this) hash) of
                     Returned u \<Rightarrow> (Returned fetchResult, issue (PinAdd hash) w2)
                   | Raised e \<Rightarrow> (Raised e, issue (PinAdd hash) w2)
                   | NeverReturns \<Rightarrow> (NeverReturns, issue (PinAdd hash) w2))
             else (Returned fetchResult, w2))
      else (Returned \<lparr>code = (if (\<exists>rsp md ds. timeoutAsyncCall (object_stat (node this) hash) timeoutDuration = Inr rsp
                                   \<and> result rsp = Some md \<and> DataSize md = Some ds)
                              then MaxSizeExceeded else NotFound), content = None\<rparr>,
            issue (ObjectStat hash) w))"
  by (auto simp: read_def metadataProbePasses_def Let_def split: sum.splits option.splits)

lemma calls_issue: "calls (issue c w) = calls w @ [c]"
  by (simp add: issue_def)

lemma count_list_replicate_Next: "count_list (replicate n (Next x)) (PinAdd h) = 0"
  by (induction n) simp_all

lemma fetchContent_no_pin:
  assumes "fetchContent this hash m w = (r, w')"
  shows "count_list (calls w') (PinAdd h) = count_list (calls w) (PinAdd h)"
proof -
  from fetchContent_calls[OF assms] obtain n where
    "calls w' = calls w @ Cat hash # replicate n (Next hash)" by blast
  then show ?thesis by (simp add: count_list_replicate_Next)
qed

section \<open>Properties of read\<close>

text \<open>
  Claim C1, as the code has it. The claim says that no failure of a remote call escapes
  from \<open>read\<close>, the pin call included. The \<open>stat\<close> call and the stream are inside
  \<open>try ... catch\<close>: a failure of the guarded \<open>stat\<close> (a time-out included) is turned
  into \<open>NotFound\<close>, and a \<open>cat\<close> that throws or a guarded \<open>next()\<close> that fails (a
  time-out included), at any point of the stream, into \<open>NotAFile\<close>. But
  \<open>await this.node.pin.add(hash)\<close> is outside every \<open>try\<close>, and not under the deadline
  guard either. So: \<open>read\<close> raises an error exactly when stage 1 passed, the fetch gave
  \<open>Success\<close> and the pin call rejects, and the error raised is the one of the pin call; it
  never returns exactly when, there, the pin call never settles; and whenever the pin
  call resolves, \<open>read\<close> returns a \<open>FetchResult\<close>.
\<close>

theorem read_raises_only_pin_failure:
  "(fst (read this hash m w) = Raised e \<longleftrightarrow>
      metadataProbePasses this hash m \<and>
      code (fst (fetchContent this hash m (issue (ObjectStat hash) w))) = Success \<and>
      (\<exists>t. pin_add (node this) hash = Rejects t e)) \<and>
   (fst (read this hash m w) = NeverReturns \<longleftrightarrow>
      metadataProbePasses this hash m \<and>
      code (fst (fetchContent this hash m (issue (ObjectStat hash) w))) = Success \<and>
      pin_add (node this) hash = NeverSettles) \<and>
   (\<forall>t. pin_add (node this) hash = Resolves t () \<longrightarrow> (\<exists>r. fst (read this hash m w) = Returned r)) \<and>
   (timeoutAsyncCall (object_stat (node this) hash) timeoutDuration = Inl e1 \<longrightarrow>
      fst (read this hash m w) = Returned \<lparr>code = NotFound, content = None\<rparr>) \<and>
   (metadataProbePasses this hash m \<and> cat (node this) hash = Inl e2 \<longrightarrow>
      fst (read this hash m w) = Returned \<lparr>code = NotAFile, content = None\<rparr>) \<and>
   (metadataProbePasses this hash m \<and> cat (node this) hash = Inr (pre @ p # rest) \<and>
    list_all continues pre \<and> totalSize (chunksOf pre) \<le> m \<and>
    timeoutAsyncCall p timeoutDuration = Inl e3 \<longrightarrow>
      fst (read this hash m w) = Returned \<lparr>code = NotAFile, content = None\<rparr>)"
proof -
  obtain r w2 where f: "fetchContent this hash m (issue (ObjectStat hash) w) = (r, w2)"
    by (cases "fetchContent this hash m (issue (ObjectStat hash) w)")
  have pin: "(fst (read this hash m w) = Raised e \<longleftrightarrow>
      metadataProbePasses this hash m \<and>
      code (fst (fetchContent this hash m (issue (ObjectStat hash) w))) = Success \<and>
      (\<exists>t. pin_add (node this) hash = Rejects t e)) \<and>
   (fst (read this hash m w) = NeverReturns \<longleftrightarrow>
      metadataProbePasses this hash m \<and>
      code (fst (fetchContent this hash m (issue (ObjectStat hash) w))) = Success \<and>
      pin_add (node this) hash = NeverSettles) \<and>
   (\<forall>t. pin_add (node this) hash = Resolves t () \<longrightarrow> (\<exists>r. fst (read this hash m w) = Returned r))"
    by (cases "pin_add (node this) hash") (auto simp: read_unfold f)
  have stat: "fst (read this hash m w) = Returned \<lparr>code = NotFound, content = None\<rparr>"
    if "timeoutAsyncCall (object_stat (node this) hash) timeoutDuration = Inl e1"
    using that by (simp add: read_def Let_def)
  have open_fails: "fst (read this hash m w) = Returned \<lparr>code = NotAFile, content = None\<rparr>"
    if "metadataProbePasses this hash m" "cat (node this) hash = Inl e2"
    using that by (simp add: read_unfold fetchContent_def)
  have next_fails: "fst (read this hash m w) = Returned \<lparr>code = NotAFile, content = None\<rparr>"
    if "metadataProbePasses this hash m" "cat (node this) hash = Inr (pre @ p # rest)"
      "list_all continues pre" "totalSize (chunksOf pre) \<le> m"
      "timeoutAsyncCall p timeoutDuration = Inl e3"
  proof -
    have "fst (fetchContent this hash m (issue (ObjectStat hash) w)) = \<lparr>code = NotAFile, content = None\<rparr>"
      using fetchContentLoop_failed_next[OF that(3,4,5), of hash rest "issue (Cat hash) (issue (ObjectStat hash) w)"] that(2)
      by (auto simp: fetchContent_def split: prod.splits)
    with that(1) f show ?thesis by (simp add: read_unfold)
  qed
  from pin stat open_fails next_fails show ?thesis by blast
qed

text \<open>
  Witness for C1: a \<open>stat\<close> that rejects gives \<open>NotFound\<close>; a \<open>cat\<close> that throws, a
  \<open>next()\<close> that rejects after a first chunk, and a \<open>next()\<close> that never settles after a
  first chunk, give \<open>NotAFile\<close>. The pin call resolves in each.
\<close>

theorem read_pin_failure_witness:
  "fst (read \<lparr>node = storeDouble (Rejects 7 (Error ''unreachable'')) (Inl (Error ''unused''))
                (Resolves 2 ())\<rparr> ''Qm'' 10 initial)
     = Returned \<lparr>code = NotFound, content = None\<rparr> \<and>
   fst (read \<lparr>node = storeDouble (Resolves 5 (Some \<lparr>DataSize = Some 3\<rparr>))
                (Inl (Error ''is a directory'')) (Resolves 2 ())\<rparr> ''Qm'' 10 initial)
     = Returned \<lparr>code = NotAFile, content = None\<rparr> \<and>
   fst (read \<lparr>node = storeDouble (Resolves 5 (Some \<lparr>DataSize = Some 3\<rparr>))
                (Inr [chunkStep 2 [1, 2] False, Rejects 3 (Error ''broken stream'')])
                (Resolves 2 ())\<rparr> ''Qm'' 10 initial)
     = Returned \<lparr>code = NotAFile, content = None\<rparr> \<and>
   fst (read \<lparr>node = storeDouble (Resolves 5 (Some \<lparr>DataSize = Some 3\<rparr>))
                (Inr [chunkStep 2 [1, 2] False, NeverSettles])
                (Resolves 2 ())\<rparr> ''Qm'' 10 initial)
     = Returned \<lparr>code = NotAFile, content = None\<rparr>"
proof -
  let ?s1 = "\<lparr>node = storeDouble (Rejects 7 (Error ''unreachable'')) (Inl (Error ''unused''))
                (Resolves 2 ())\<rparr>"
  let ?s2 = "\<lparr>node = storeDouble (Resolves 5 (Some \<lparr>DataSize = Some 3\<rparr>))
                (Inl (Error ''is a directory'')) (Resolves 2 ())\<rparr>"
  let ?p = "chunkStep 2 [1, 2] False"
  let ?s3 = "\<lparr>node = storeDouble (Resolves 5 (Some \<lparr>DataSize = Some 3\<rparr>))
                (Inr [?p, Rejects 3 (Error ''broken stream'')]) (Resolves 2 ())\<rparr>"
  let ?s4 = "\<lparr>node = storeDouble (Resolves 5 (Some \<lparr>DataSize = Some 3\<rparr>))
                (Inr [?p, NeverSettles]) (Resolves 2 ())\<rparr>"
  have d: "delivered ?p = Some \<lparr>r_value = Some [1, 2], r_done = False\<rparr>"
    by (simp add: delivered_def chunkStep_def timeoutAsyncCall_def timeoutDuration_def)
  have pre: "list_all continues [?p]" "totalSize (chunksOf [?p]) \<le> 10"
    by (simp_all add: continues_def chunksOf_def chunkOf_def totalSize_def byteLength_def d)
  have a: "fst (read ?s1 ''Qm'' 10 initial) = Returned \<lparr>code = NotFound, content = None\<rparr>"
    using read_raises_only_pin_failure
      [of ?s1 "''Qm''" 10 initial "Error []" "Error ''unreachable''" "Error []" "[]" NeverSettles "[]" Timeout]
    by (simp add: storeDouble_def timeoutAsyncCall_def timeoutDuration_def)
  have b: "fst (read ?s2 ''Qm'' 10 initial) = Returned \<lparr>code = NotAFile, content = None\<rparr>"
    using read_raises_only_pin_failure
      [of ?s2 "''Qm''" 10 initial "Error []" "Error []" "Error ''is a directory''" "[]" NeverSettles "[]" Timeout]
    by (simp add: storeDouble_def metadataProbePasses_def timeoutAsyncCall_def timeoutDuration_def)
  have c: "fst (read ?s3 ''Qm'' 10 initial) = Returned \<lparr>code = NotAFile, content = None\<rparr>"
    using read_raises_only_pin_failure
      [of ?s3 "''Qm''" 10 initial "Error []" "Error []" "Error []" "[?p]"
          "Rejects 3 (Error ''broken stream'')" "[]" "Error ''broken stream''"] pre
    by (simp add: storeDouble_def metadataProbePasses_def timeoutAsyncCall_def timeoutDuration_def)
  have e: "fst (read ?s4 ''Qm'' 10 initial) = Returned \<lparr>code = NotAFile, content = None\<rparr>"
    using read_raises_only_pin_failure
      [of ?s4 "''Qm''" 10 initial "Error []" "Error []" "Error []" "[?p]" NeverSettles "[]" Timeout] pre
    by (simp add: storeDouble_def metadataProbePasses_def timeoutAsyncCall_def timeoutDuration_def)
  from a b c e show ?thesis by blast
qed

text \<open>
  Counterexample to C1 as stated: the metadata probe and the fetch succeed (3 bytes, limit
  10), the pin call rejects, and \<open>read\<close> raises the error of the pin call.
\<close>

theorem read_pin_failure_counterexample:
  "code (fst (fetchContent \<lparr>node = storeDouble (Resolves 5 (Some \<lparr>DataSize = Some 3\<rparr>))
            (Inr [chunkStep 2 [1, 2, 3] True]) (Rejects 2 (Error ''pin failed''))\<rparr> ''Qm'' 10
            (issue (ObjectStat ''Qm'') initial))) = Success \<and>
   fst (read \<lparr>node = storeDouble (Resolves 5 (Some \<lparr>DataSize = Some 3\<rparr>))
            (Inr [chunkStep 2 [1, 2, 3] True]) (Rejects 2 (Error ''pin failed''))\<rparr> ''Qm'' 10 initial)
     = Raised (Error ''pin failed'')"
  by (simp add: read_def fetchContent_def storeDouble_def chunkStep_def timeoutAsyncCall_def
      timeoutDuration_def byteLength_def Let_def)


text \<open>
  Claim C2: when the metadata probe succeeds and declares a \<open>DataSize\<close> strictly greater
  than \<open>maxSizeInBytes\<close>, \<open>read\<close> returns \<open>MaxSizeExceeded\<close>, and the only call it
  issues is the \<open>stat\<close>: \<open>cat\<close> is never called.
\<close>

theorem read_declared_size_exceeded:
  assumes "object_stat (node this) hash = Resolves t (Some md)"
    and "int t < timeoutDuration"
    and "DataSize md = Some ds"
    and "ds > m"
  shows "fst (read this hash m w) = Returned \<lparr>code = MaxSizeExceeded, content = None\<rparr> \<and>
         calls (snd (read this hash m w)) = calls w @ [ObjectStat hash]"
  using assms
  by (simp add: read_def timeoutAsyncCall_def timeoutDuration_def issue_def Let_def)

text \<open>
  Witness for C2: declared size 200, limit 100.
\<close>

theorem read_declared_size_exceeded_witness:
  "fst (read \<lparr>node = storeDouble (Resolves 5 (Some \<lparr>DataSize = Some 200\<rparr>))
               (Inr [chunkStep 2 [1, 2, 3] True]) (Resolves 2 ())\<rparr> ''Qm'' 100 initial)
     = Returned \<lparr>code = MaxSizeExceeded, content = None\<rparr> \<and>
   calls (snd (read \<lparr>node = storeDouble (Resolves 5 (Some \<lparr>DataSize = Some 200\<rparr>))
               (Inr [chunkStep 2 [1, 2, 3] True]) (Resolves 2 ())\<rparr> ''Qm'' 100 initial))
     = [ObjectStat ''Qm'']"
  using read_declared_size_exceeded
    [of "\<lparr>node = storeDouble (Resolves 5 (Some \<lparr>DataSize = Some 200\<rparr>))
               (Inr [chunkStep 2 [1, 2, 3] True]) (Resolves 2 ())\<rparr>" "''Qm''" 5
        "\<lparr>DataSize = Some 200\<rparr>" 200 100 initial]
  by (simp add: storeDouble_def timeoutDuration_def initial_def)

text \<open>
  Claim C3: in the streaming stage, let the steps \<open>pre\<close> all continue with a running
  total within the limit, and let the next step \<open>p\<close> deliver a chunk that takes the total
  strictly above \<open>maxSizeInBytes\<close>. Then the loop returns \<open>MaxSizeExceeded\<close> after
  exactly \<open>length pre + 1\<close> pulls, whatever the rest of the stream is; \<open>bufferChunks\<close>
  holds the chunks of \<open>pre\<close> and not the crossing chunk; and \<open>read\<close> returns
  \<open>MaxSizeExceeded\<close> having issued the \<open>stat\<close>, the \<open>cat\<close> and these pulls, and no pin
  call.
\<close>

theorem read_stream_size_exceeded:
  assumes "metadataProbePasses this hash m"
    and "cat (node this) hash = Inr (pre @ p # rest)"
    and "list_all continues pre"
    and "totalSize (chunksOf pre) \<le> m"
    and "delivered p = Some r"
    and "r_value r = Some chunk"
    and "m < totalSize (chunksOf pre) + byteLength chunk"
  shows "fetchContentLoop hash m (pre @ p # rest) [] 0 w1 =
           (\<lparr>code = MaxSizeExceeded, content = None\<rparr>, chunksOf pre,
            w1\<lparr>calls := calls w1 @ replicate (Suc (length pre)) (Next hash)\<rparr>) \<and>
         read this hash m w =
           (Returned \<lparr>code = MaxSizeExceeded, content = None\<rparr>,
            w\<lparr>calls := calls w @ [ObjectStat hash, Cat hash] @ replicate (Suc (length pre)) (Next hash)\<rparr>)"
proof -
  from assms(5) obtain rsp where g: "timeoutAsyncCall p timeoutDuration = Inr rsp" and rr: "result rsp = Some r"
    by (auto simp: delivered_def split: sum.splits)
  have loop: "fetchContentLoop hash m (pre @ p # rest) [] 0 v =
           (\<lparr>code = MaxSizeExceeded, content = None\<rparr>, chunksOf pre,
            v\<lparr>calls := calls v @ replicate (Suc (length pre)) (Next hash)\<rparr>)" for v
    using fetchContentLoop_prefix[of pre 0 m hash "p # rest" "[]" v] assms(3,4,6,7) g rr
    by (simp add: issue_def replicate_append_same)
  show ?thesis
    using loop[of w1] loop[of "issue (Cat hash) (issue (ObjectStat hash) w)"] assms(1,2)
    by (simp add: read_unfold fetchContent_def issue_def)
qed

text \<open>
  Witness for C3: limit 100, chunks of 60, 60 and 1 bytes. The second chunk crosses the
  limit; the third is never pulled.
\<close>

theorem read_stream_size_exceeded_witness:
  "fetchContentLoop ''Qm'' 100 [chunkStep 2 (replicate 60 0) False, chunkStep 2 (replicate 60 1) False,
       chunkStep 2 [2] True] [] 0 initial =
     (\<lparr>code = MaxSizeExceeded, content = None\<rparr>, [replicate 60 0],
      \<lparr>ipfsStorageSingleton = None, calls = [Next ''Qm'', Next ''Qm'']\<rparr>) \<and>
   read \<lparr>node = storeDouble (Resolves 5 (Some \<lparr>DataSize = Some 100\<rparr>))
            (Inr [chunkStep 2 (replicate 60 0) False, chunkStep 2 (replicate 60 1) False,
                  chunkStep 2 [2] True]) (Resolves 2 ())\<rparr> ''Qm'' 100 initial =
     (Returned \<lparr>code = MaxSizeExceeded, content = None\<rparr>,
      \<lparr>ipfsStorageSingleton = None,
        calls = [ObjectStat ''Qm'', Cat ''Qm'', Next ''Qm'', Next ''Qm'']\<rparr>)"
proof -
  let ?p0 = "chunkStep 2 (replicate 60 0) False"
  let ?p1 = "chunkStep 2 (replicate 60 1) False"
  let ?st = "\<lparr>node = storeDouble (Resolves 5 (Some \<lparr>DataSize = Some 100\<rparr>))
            (Inr [?p0, ?p1, chunkStep 2 [2] True]) (Resolves 2 ())\<rparr>"
  have d0: "delivered ?p0 = Some \<lparr>r_value = Some (replicate 60 0), r_done = False\<rparr>"
    by (simp add: delivered_def chunkStep_def timeoutAsyncCall_def timeoutDuration_def)
  have d1: "delivered ?p1 = Some \<lparr>r_value = Some (replicate 60 1), r_done = False\<rparr>"
    by (simp add: delivered_def chunkStep_def timeoutAsyncCall_def timeoutDuration_def)
  have c0: "chunksOf [?p0] = [replicate 60 0]"
    by (simp add: chunksOf_def chunkOf_def d0)
  have h1: "metadataProbePasses ?st ''Qm'' 100"
    by (simp add: metadataProbePasses_def storeDouble_def timeoutAsyncCall_def timeoutDuration_def)
  have h2: "cat (node ?st) ''Qm'' = Inr ([?p0] @ ?p1 # [chunkStep 2 [2] True])"
    by (simp add: storeDouble_def)
  have h3: "list_all continues [?p0]"
    by (simp add: continues_def d0)
  have h4: "totalSize (chunksOf [?p0]) \<le> 100"
    by (simp add: c0 totalSize_def byteLength_def)
  have h7: "100 < totalSize (chunksOf [?p0]) + byteLength (replicate 60 1)"
    by (simp add: c0 totalSize_def byteLength_def)
  show ?thesis
    using read_stream_size_exceeded[OF h1 h2 h3 h4 d1 _ h7, of initial initial] c0
    by (simp add: initial_def)
qed

text \<open>
  Claim C4: when the guarded \<open>stat\<close> raises any error (time-out included), or gives no
  metadata, or gives metadata without \<open>DataSize\<close>, \<open>read\<close> returns \<open>NotFound\<close>.
\<close>

theorem read_probe_failure_not_found:
  assumes "(\<exists>e. timeoutAsyncCall (object_stat (node this) hash) timeoutDuration = Inl e) \<or>
           timeoutAsyncCall (object_stat (node this) hash) timeoutDuration = Inr \<lparr>result = None\<rparr> \<or>
           (\<exists>md. timeoutAsyncCall (object_stat (node this) hash) timeoutDuration = Inr \<lparr>result = Some md\<rparr>
                 \<and> DataSize md = None)"
  shows "fst (read this hash m w) = Returned \<lparr>code = NotFound, content = None\<rparr>"
  using assms by (auto simp: read_def Let_def)

text \<open>
  Witness for C4: a \<open>stat\<close> that never settles (time-out), one that rejects, one that
  resolves with \<open>undefined\<close>, and one whose metadata has no \<open>DataSize\<close>.
\<close>

theorem read_probe_failure_not_found_witness:
  "fst (read \<lparr>node = storeDouble NeverSettles (Inr []) (Resolves 2 ())\<rparr> ''Qm'' 100 initial)
     = Returned \<lparr>code = NotFound, content = None\<rparr> \<and>
   fst (read \<lparr>node = storeDouble (Rejects 3 (Error ''no link'')) (Inr []) (Resolves 2 ())\<rparr> ''Qm'' 100 initial)
     = Returned \<lparr>code = NotFound, content = None\<rparr> \<and>
   fst (read \<lparr>node = storeDouble (Resolves 3 None) (Inr []) (Resolves 2 ())\<rparr> ''Qm'' 100 initial)
     = Returned \<lparr>code = NotFound, content = None\<rparr> \<and>
   fst (read \<lparr>node = storeDouble (Resolves 3 (Some \<lparr>DataSize = None\<rparr>)) (Inr []) (Resolves 2 ())\<rparr> ''Qm'' 100 initial)
     = Returned \<lparr>code = NotFound, content = None\<rparr>"
proof -
  have a: "timeoutAsyncCall (object_stat (node \<lparr>node = storeDouble NeverSettles (Inr []) (Resolves 2 ())\<rparr>) ''Qm'')
             timeoutDuration = Inl Timeout"
    by (simp add: storeDouble_def timeoutAsyncCall_def timeoutDuration_def)
  have b: "timeoutAsyncCall (object_stat (node \<lparr>node = storeDouble (Rejects 3 (Error ''no link'')) (Inr []) (Resolves 2 ())\<rparr>) ''Qm'')
             timeoutDuration = Inl (Error ''no link'')"
    by (simp add: storeDouble_def timeoutAsyncCall_def timeoutDuration_def)
  have c: "timeoutAsyncCall (object_stat (node \<lparr>node = storeDouble (Resolves 3 None) (Inr []) (Resolves 2 ())\<rparr>) ''Qm'')
             timeoutDuration = Inr \<lparr>result = None\<rparr>"
    by (simp add: storeDouble_def timeoutAsyncCall_def timeoutDuration_def)
  have d: "timeoutAsyncCall (object_stat (node \<lparr>node = storeDouble (Resolves 3 (Some \<lparr>DataSize = None\<rparr>)) (Inr []) (Resolves 2 ())\<rparr>) ''Qm'')
             timeoutDuration = Inr \<lparr>result = Some \<lparr>DataSize = None\<rparr>\<rparr>"
    by (simp add: storeDouble_def timeoutAsyncCall_def timeoutDuration_def)
  show ?thesis
    using read_probe_failure_not_found[of _ "''Qm''" 100 initial] a b c d
    by (metis ContentMetadata.select_convs(1))
qed


text \<open>
  Claim C5: a \<open>FetchResult\<close> returned by \<open>read\<close> has no content when its code is not
  \<open>Success\<close>; when its code is \<open>Success\<close>, the stream has run to its completion, no step
  of it having failed, and the content is the concatenation, in the order of receipt, of
  all the chunks the stream delivered.
\<close>

theorem read_content:
  assumes "fst (read this hash m w) = Returned r"
  shows "(code r \<noteq> Success \<longrightarrow> content r = None) \<and>
         (code r = Success \<longrightarrow>
            (\<exists>it. cat (node this) hash = Inr it \<and> completes it \<and>
                  content r = Some (concat (receivedChunks it))))"
proof (cases "metadataProbePasses this hash m")
  case False
  with assms show ?thesis by (auto simp: read_unfold split: if_splits)
next
  case True
  obtain fr w2 where f: "fetchContent this hash m (issue (ObjectStat hash) w) = (fr, w2)"
    by (cases "fetchContent this hash m (issue (ObjectStat hash) w)")
  from assms True f have "fr = r"
    by (auto simp: read_unfold split: if_splits outcome.splits)
  with fetchContent_content[OF f] fetchContent_complete[OF f] show ?thesis by simp
qed

text \<open>
  Witness for C5: chunks \<open>[1, 2]\<close> and \<open>[3]\<close>, then the end of the stream. A stream
  whose second step rejects does not complete.
\<close>

theorem read_content_witness:
  "fst (read \<lparr>node = storeDouble (Resolves 5 (Some \<lparr>DataSize = Some 3\<rparr>))
            (Inr [chunkStep 2 [1, 2] False, chunkStep 2 [3] False]) (Resolves 2 ())\<rparr> ''Qm'' 10 initial)
     = Returned \<lparr>code = Success, content = Some [1, 2, 3]\<rparr> \<and>
   completes [chunkStep 2 [1, 2] False, chunkStep 2 [3] False] \<and>
   receivedChunks [chunkStep 2 [1, 2] False, chunkStep 2 [3] False] = [[1, 2], [3]] \<and>
   \<not> completes [chunkStep 2 [1, 2] False, Rejects 3 (Error ''broken stream'')]"
proof -
  let ?st = "\<lparr>node = storeDouble (Resolves 5 (Some \<lparr>DataSize = Some 3\<rparr>))
            (Inr [chunkStep 2 [1, 2] False, chunkStep 2 [3] False]) (Resolves 2 ())\<rparr>"
  have r: "fst (read ?st ''Qm'' 10 initial) = Returned \<lparr>code = Success, content = Some [1, 2, 3]\<rparr>"
    by (simp add: read_def fetchContent_def storeDouble_def chunkStep_def timeoutAsyncCall_def
      timeoutDuration_def byteLength_def Let_def)
  from read_content[OF r] show ?thesis
    using r by (simp add: storeDouble_def delivered_def continues_def chunkOf_def chunkStep_def
        timeoutAsyncCall_def timeoutDuration_def)
qed

text \<open>
  Claim C6: \<open>read\<close> adds one \<open>pin.add(hash)\<close> call when the fetch stage ran and gave
  \<open>Success\<close>, and no pin call otherwise; it adds no pin call for any other identifier.
\<close>

theorem read_pins_iff_success:
  "count_list (calls (snd (read this hash m w))) (PinAdd h) =
     count_list (calls w) (PinAdd h) +
     (if h = hash \<and> metadataProbePasses this hash m \<and>
         code (fst (fetchContent this hash m (issue (ObjectStat hash) w))) = Success
      then 1 else 0)"
proof -
  obtain r w2 where f: "fetchContent this hash m (issue (ObjectStat hash) w) = (r, w2)"
    by (cases "fetchContent this hash m (issue (ObjectStat hash) w)")
  have n: "count_list (calls w2) (PinAdd k) = count_list (calls w) (PinAdd k)" for k
    using fetchContent_no_pin[OF f, of k] by (simp add: calls_issue)
  show ?thesis
    by (cases "pin_add (node this) hash") (simp_all add: read_unfold f n calls_issue)
qed

text \<open>
  Witness for C6: a read that succeeds issues one pin call; a read whose stream throws
  issues none.
\<close>

theorem read_pins_iff_success_witness:
  "count_list (calls (snd (read \<lparr>node = storeDouble (Resolves 5 (Some \<lparr>DataSize = Some 3\<rparr>))
       (Inr [chunkStep 2 [1, 2, 3] True]) (Resolves 2 ())\<rparr> ''Qm'' 10 initial))) (PinAdd ''Qm'') = 1 \<and>
   count_list (calls (snd (read \<lparr>node = storeDouble (Resolves 5 (Some \<lparr>DataSize = Some 3\<rparr>))
       (Inl (Error ''is a directory'')) (Resolves 2 ())\<rparr> ''Qm'' 10 initial))) (PinAdd ''Qm'') = 0"
proof -
  have a: "count_list (calls (snd (read \<lparr>node = storeDouble (Resolves 5 (Some \<lparr>DataSize = Some 3\<rparr>))
       (Inr [chunkStep 2 [1, 2, 3] True]) (Resolves 2 ())\<rparr> ''Qm'' 10 initial))) (PinAdd ''Qm'') = 1"
    using read_pins_iff_success
      [of "\<lparr>node = storeDouble (Resolves 5 (Some \<lparr>DataSize = Some 3\<rparr>))
             (Inr [chunkStep 2 [1, 2, 3] True]) (Resolves 2 ())\<rparr>" "''Qm''" 10 initial "''Qm''"]
    by (simp add: metadataProbePasses_def fetchContent_def storeDouble_def chunkStep_def
        timeoutAsyncCall_def timeoutDuration_def byteLength_def initial_def issue_def Let_def)
  have b: "count_list (calls (snd (read \<lparr>node = storeDouble (Resolves 5 (Some \<lparr>DataSize = Some 3\<rparr>))
       (Inl (Error ''is a directory'')) (Resolves 2 ())\<rparr> ''Qm'' 10 initial))) (PinAdd ''Qm'') = 0"
    using read_pins_iff_success
      [of "\<lparr>node = storeDouble (Resolves 5 (Some \<lparr>DataSize = Some 3\<rparr>))
             (Inl (Error ''is a directory'')) (Resolves 2 ())\<rparr>" "''Qm''" 10 initial "''Qm''"]
    by (simp add: metadataProbePasses_def fetchContent_def storeDouble_def
        timeoutAsyncCall_def timeoutDuration_def initial_def issue_def Let_def)
  from a b show ?thesis by blast
qed

section \<open>Properties of the singleton lifecycle\<close>

text \<open>
  Claim C7: with an instance in the slot, \<open>createSingleton\<close> raises the
  "cannot be created twice" error and changes nothing; with an empty slot, \<open>getSingleton\<close>
  raises the "use createSingleton before get" error; a \<open>createSingleton\<close> that does not
  return an instance leaves the slot as it was; \<open>getSingleton\<close> never changes the state.
\<close>

theorem createSingleton_getSingleton_faults:
  "(ipfsStorageSingleton w \<noteq> None \<longrightarrow>
      createSingleton IPFS_create repo_arg w = (Raised AlreadyExists, w)) \<and>
   (ipfsStorageSingleton w = None \<longrightarrow> getSingleton w = (Raised NotInitialized, w)) \<and>
   ((\<forall>s. fst (createSingleton IPFS_create repo_arg w) \<noteq> Returned s) \<longrightarrow>
      ipfsStorageSingleton (snd (createSingleton IPFS_create repo_arg w)) = ipfsStorageSingleton w) \<and>
   snd (getSingleton w) = w"
  by (cases "IPFS_create \<lparr>repo = (case repo_arg of None \<Rightarrow> ''sidetree-ipfs'' | Some r \<Rightarrow> r)\<rparr>")
     (auto simp: createSingleton_def getSingleton_def issue_def Let_def split: option.splits)

text \<open>
  Witness for C7: a fresh process, and a process after a successful
  \<open>createSingleton\<close>.
\<close>

theorem createSingleton_getSingleton_faults_witness:
  "getSingleton initial = (Raised NotInitialized, initial) \<and>
   createSingleton (\<lambda>opts. Resolves 3 (storeDouble NeverSettles (Inr []) NeverSettles)) None
     \<lparr>ipfsStorageSingleton = Some \<lparr>node = storeDouble NeverSettles (Inr []) NeverSettles\<rparr>,
        calls = [Create ''sidetree-ipfs'']\<rparr>
   = (Raised AlreadyExists,
      \<lparr>ipfsStorageSingleton = Some \<lparr>node = storeDouble NeverSettles (Inr []) NeverSettles\<rparr>,
        calls = [Create ''sidetree-ipfs'']\<rparr>)"
  using createSingleton_getSingleton_faults [of initial "\<lambda>opts. NeverSettles" None]
    createSingleton_getSingleton_faults
      [of "\<lparr>ipfsStorageSingleton = Some \<lparr>node = storeDouble NeverSettles (Inr []) NeverSettles\<rparr>,
            calls = [Create ''sidetree-ipfs'']\<rparr>"
          "\<lambda>opts. Resolves 3 (storeDouble NeverSettles (Inr []) NeverSettles)" None]
  by (simp add: initial_def)

text \<open>
  Claim C10: after a successful \<open>createSingleton\<close>, \<open>stop()\<close> issues the node's
  \<open>stop\<close> and leaves the slot as it was, whatever the node answers: a later
  \<open>createSingleton\<close> still raises the "cannot be created twice" error and
  \<open>getSingleton\<close> still returns the same instance.
\<close>

theorem stop_keeps_singleton:
  assumes "createSingleton IPFS_create repo_arg w0 = (Returned s, w1)"
    and "stop s w1 = (u, w2)"
  shows "createSingleton IPFS_create' repo_arg' w2 = (Raised AlreadyExists, w2) \<and>
         getSingleton w2 = (Returned s, w2) \<and>
         ipfsStorageSingleton w2 = ipfsStorageSingleton w1 \<and>
         calls w2 = calls w1 @ [Stop]"
proof -
  from assms(1) have "ipfsStorageSingleton w1 = Some s"
    by (auto simp: createSingleton_def Let_def split: if_splits outcome.splits)
  moreover from assms(2) have "w2 = issue Stop w1"
    by (simp add: stop_def)
  ultimately show ?thesis
    by (simp add: createSingleton_def getSingleton_def issue_def)
qed

text \<open>
  Witness for C10: create, stop, then create and get again.
\<close>

theorem stop_keeps_singleton_witness:
  "createSingleton (\<lambda>opts. Resolves 3 (storeDouble NeverSettles (Inr []) NeverSettles)) (Some ''other-repo'')
     \<lparr>ipfsStorageSingleton = Some \<lparr>node = storeDouble NeverSettles (Inr []) NeverSettles\<rparr>,
        calls = [Create ''sidetree-ipfs'', Stop]\<rparr>
   = (Raised AlreadyExists,
      \<lparr>ipfsStorageSingleton = Some \<lparr>node = storeDouble NeverSettles (Inr []) NeverSettles\<rparr>,
        calls = [Create ''sidetree-ipfs'', Stop]\<rparr>) \<and>
   getSingleton
     \<lparr>ipfsStorageSingleton = Some \<lparr>node = storeDouble NeverSettles (Inr []) NeverSettles\<rparr>,
        calls = [Create ''sidetree-ipfs'', Stop]\<rparr>
   = (Returned \<lparr>node = storeDouble NeverSettles (Inr []) NeverSettles\<rparr>,
      \<lparr>ipfsStorageSingleton = Some \<lparr>node = storeDouble NeverSettles (Inr []) NeverSettles\<rparr>,
        calls = [Create ''sidetree-ipfs'', Stop]\<rparr>)"
proof -
  let ?n = "storeDouble NeverSettles (Inr []) NeverSettles"
  let ?c = "\<lambda>opts::options. Resolves 3 ?n"
  have a: "createSingleton ?c None initial =
             (Returned \<lparr>node = ?n\<rparr>,
              \<lparr>ipfsStorageSingleton = Some \<lparr>node = ?n\<rparr>, calls = [Create ''sidetree-ipfs'']\<rparr>)"
    by (simp add: createSingleton_def initial_def issue_def)
  have b: "stop \<lparr>node = ?n\<rparr>
             \<lparr>ipfsStorageSingleton = Some \<lparr>node = ?n\<rparr>, calls = [Create ''sidetree-ipfs'']\<rparr> =
             (Returned (),
              \<lparr>ipfsStorageSingleton = Some \<lparr>node = ?n\<rparr>, calls = [Create ''sidetree-ipfs'', Stop]\<rparr>)"
    by (simp add: stop_def storeDouble_def issue_def)
  from stop_keeps_singleton [OF a b, of ?c "Some ''other-repo''"] show ?thesis
    by simp
qed

section \<open>Properties of the deadline guard\<close>

text \<open>
  Claim C9: an operation that resolves before the timer fires gives its value, wrapped;
  when the timer fires first, or the operation never settles, the guard gives
  \<open>Timeout\<close>; a duration of zero or less gives \<open>Timeout\<close> for every operation.
\<close>

theorem timeoutAsyncCall_race:
  "(int t < d \<longrightarrow> timeoutAsyncCall (Resolves t (v :: 'a)) d = Inr \<lparr>result = v\<rparr>) \<and>
   (d < int t \<longrightarrow> timeoutAsyncCall (Resolves t v) d = Inl Timeout \<and>
                   timeoutAsyncCall (Rejects t e :: 'a promise) d = Inl Timeout) \<and>
   timeoutAsyncCall (NeverSettles :: 'a promise) d = Inl Timeout \<and>
   (d \<le> 0 \<longrightarrow> timeoutAsyncCall (task :: 'a promise) d = Inl Timeout)"
  by (simp add: timeoutAsyncCall_def)

text \<open>
  Witness for C9, at the 10 seconds of \<open>IpfsStorage\<close>: an operation that resolves after
  9999 ms, one that resolves after 10001 ms, and a duration of zero.
\<close>

theorem timeoutAsyncCall_race_witness:
  "timeoutAsyncCall (Resolves 9999 (7::nat)) 10000 = Inr \<lparr>result = 7\<rparr> \<and>
   timeoutAsyncCall (Resolves 10001 (7::nat)) 10000 = Inl Timeout \<and>
   timeoutAsyncCall (Resolves 0 (7::nat)) 0 = Inl Timeout"
proof -
  have a: "timeoutAsyncCall (Resolves 9999 (7::nat)) 10000 = Inr \<lparr>result = 7\<rparr>"
    using timeoutAsyncCall_race [of 9999 10000 "7::nat" "Error []" NeverSettles] by simp
  have b: "timeoutAsyncCall (Resolves 10001 (7::nat)) 10000 = Inl Timeout"
    using timeoutAsyncCall_race [of 10001 10000 "7::nat" "Error []" NeverSettles] by simp
  have c: "timeoutAsyncCall (Resolves 0 (7::nat)) 0 = Inl Timeout"
    using timeoutAsyncCall_race [of 0 0 "7::nat" "Error []" "Resolves 0 (7::nat)"] by simp
  from a b c show ?thesis by blast
qed

section \<open>Properties of getPublicKey\<close>

text \<open>
  Claim C8, as the code has it: \<open>getPublicKey\<close> returns the first entry, in list order,
  whose id is not empty and ends with the target string, and nothing when there is no
  such entry. The test \<open>publicKey.id && ...\<close> skips an entry whose id is the empty
  string.
\<close>

theorem getPublicKey_first_suffix_match:
  "getPublicKey didDocument keyId =
     find (\<lambda>k. key_id k \<noteq> [] \<and> suffix keyId (key_id k)) (publicKey didDocument)"
  by (simp add: getPublicKey_def getPublicKeyLoop_find)

text \<open>
  Counterexample to C8 as stated: the id of the only entry is the empty string, which
  ends with the empty target string, and yet nothing is returned.
\<close>

theorem getPublicKey_empty_id_counterexample:
  "suffix [] (key_id \<lparr>key_id = [], key_rest = ()\<rparr>) \<and>
   getPublicKey \<lparr>publicKey = [\<lparr>key_id = [], key_rest = ()\<rparr>]\<rparr> [] = None"
  by (simp add: getPublicKey_def)

end
